theory Spec2Isabelle
  imports Main
begin

section \<open>The todo service of \<open>src/02-nodejs/todoServer.file.js\<close>\<close>

subsection \<open>JSON values, todo records, the store file\<close>

text \<open>
  A JSON value as \<open>JSON.parse\<close> delivers it. \<open>JNum n\<close> is the number whose value is
  the integer \<open>n\<close>. JavaScript numbers are doubles: every integer of magnitude below
  \<open>2^53\<close> is one, exactly, and from \<open>2^53\<close> on only some integers are. The one
  arithmetic operation of the service, \<open>maxId + 1\<close>, is modelled with the rounding of
  doubles (\<open>plus1\<close> below). Fractions and non-finite numbers are outside this model.
\<close>

datatype jval =
    JNull
  | JBool bool
  | JNum int
  | JStr string
  | JArr "jval list"
  | JObj "(string \<times> jval) list"

text \<open>
  A todo record and a request body are open objects: a map from property names to values.
  A property the object does not have reads as \<open>None\<close> (JavaScript's \<open>undefined\<close>).
\<close>

type_synonym todo = "string \<rightharpoonup> jval"

text \<open>
  The text of the store file, represented by what \<open>JSON.parse\<close> makes of it: the empty
  text and every other text that is not JSON make it throw; a text that is JSON is taken
  to denote an array of objects, which is what the service itself writes.
\<close>

datatype file_text = Empty_text | Malformed_text | Json_text "todo list"

text \<open>
  The file system as far as the service sees it: the content of \<open>files/list.json\<close>
  (\<open>None\<close> when the file cannot be read, for instance because it does not exist) and
  whether a write to it succeeds.
\<close>

record fs =
  content :: "file_text option"
  writable :: bool

datatype error = Read_error | Syntax_error | Write_error

text \<open>What the callback of \<open>fs.readFile\<close> receives as \<open>data\<close>, by its \<open>typeof\<close>.\<close>

datatype data = String_data file_text | Object_data "todo list" | Other_data

text \<open>\<open>fs.readFile(FILEPATH, "utf8", cb)\<close>: an error, or the content as a string.\<close>

definition readFile :: "fs \<Rightarrow> error + data" where
  "readFile s = (case content s of None \<Rightarrow> Inl Read_error | Some t \<Rightarrow> Inr (String_data t))"

definition JSON_parse :: "file_text \<Rightarrow> error + todo list" where
  "JSON_parse t = (case t of Json_text l \<Rightarrow> Inr l | _ \<Rightarrow> Inl Syntax_error)"

definition JSON_stringify :: "todo list \<Rightarrow> file_text" where
  "JSON_stringify l = Json_text l"

text \<open>\<open>fs.writeFile\<close>: a failed write is taken to leave the file as it was.\<close>

definition writeFile :: "fs \<Rightarrow> file_text \<Rightarrow> error + fs" where
  "writeFile s t = (if writable s then Inr (s\<lparr>content := Some t\<rparr>) else Inl Write_error)"

subsection \<open>The helpers of the service\<close>

text \<open>
  The path parameter after \<open>+req.params?.id\<close>: a number, or \<open>NaN\<close> for a parameter
  that is not numeric.
\<close>

datatype jsnum = NaN | Num int

text \<open>
  \<open>x.id === id\<close>: strict equality of a property with a number holds only when the
  property is that number; \<open>NaN\<close> is equal to nothing.
\<close>

fun strict_eq :: "jval option \<Rightarrow> jsnum \<Rightarrow> bool" where
  "strict_eq (Some (JNum n)) (Num m) = (n = m)"
| "strict_eq _ _ = False"

text \<open>
  \<open>item.id > maxId\<close>, with \<open>maxId\<close> a number. An absent id is \<open>undefined\<close>, for which
  the comparison is false. For an id that is present and not a number JavaScript coerces;
  that coercion is not modelled, and the theorems below that depend on the generated id
  are stated for lists whose ids are numbers (\<open>ids_numeric\<close>), which every operation of
  the service preserves.
\<close>

fun id_gt :: "jval option \<Rightarrow> int \<Rightarrow> bool" where
  "id_gt (Some (JNum n)) maxId = (n > maxId)"
| "id_gt _ maxId = False"

fun num_of :: "jval option \<Rightarrow> int" where
  "num_of (Some (JNum n)) = n"
| "num_of _ = 0"

text \<open>The body of the \<open>forEach\<close> of \<open>generateNewId\<close>, as a step on \<open>maxId\<close>.\<close>

definition max_step :: "todo \<Rightarrow> int \<Rightarrow> int" where
  "max_step item maxId = (if id_gt (item ''id'') maxId then num_of (item ''id'') else maxId)"

text \<open>
  \<open>maxId + 1\<close> on doubles, for a \<open>maxId\<close> that is an integer and not negative (it starts
  at 0 and only grows). Below \<open>2^53\<close> the sum is exact. From \<open>2^53\<close> to \<open>2^54\<close> the doubles
  are the even integers, the sum lies half way between two of them and is rounded to the
  one with the even significand. From \<open>2^54\<close> on the sum is rounded back to \<open>maxId\<close>.
\<close>

definition plus1 :: "int \<Rightarrow> int" where
  "plus1 maxId =
     (if maxId < 2 ^ 53 then maxId + 1
      else if maxId < 2 ^ 54 then (if maxId mod 4 = 0 then maxId else maxId + 2)
      else maxId)"

definition generateNewId :: "todo list \<Rightarrow> int" where
  "generateNewId list = plus1 (fold max_step list 0)"

definition getListFromFile :: "fs \<Rightarrow> error + todo list" where
  "getListFromFile s =
     (case readFile s of
        Inl err \<Rightarrow> Inl err
      | Inr d \<Rightarrow>
          (case d of
             String_data t \<Rightarrow> JSON_parse t
           | Object_data l \<Rightarrow> Inr l
           | Other_data \<Rightarrow> Inr []))"

definition storeListToFile :: "todo list \<Rightarrow> fs \<Rightarrow> error + fs" where
  "storeListToFile list s = writeFile s (JSON_stringify list)"

text \<open>\<open>Array.prototype.findIndex\<close>, with \<open>None\<close> for \<open>-1\<close>.\<close>

fun findIndex :: "('a \<Rightarrow> bool) \<Rightarrow> 'a list \<Rightarrow> nat option" where
  "findIndex p [] = None"
| "findIndex p (x # xs) =
     (if p x then Some 0 else (case findIndex p xs of None \<Rightarrow> None | Some i \<Rightarrow> Some (Suc i)))"

text \<open>\<open>list.splice(i, 1)\<close>.\<close>

definition splice1 :: "nat \<Rightarrow> 'a list \<Rightarrow> 'a list" where
  "splice1 i xs = take i xs @ drop (Suc i) xs"

text \<open>The truthiness of a property, absent or present.\<close>

fun truthy :: "jval option \<Rightarrow> bool" where
  "truthy None = False"
| "truthy (Some JNull) = False"
| "truthy (Some (JBool b)) = b"
| "truthy (Some (JNum n)) = (n \<noteq> 0)"
| "truthy (Some (JStr s)) = (s \<noteq> [])"
| "truthy (Some (JArr _)) = True"
| "truthy (Some (JObj _)) = True"

text \<open>The number \<open>id\<close> as the value of a property (\<open>NaN\<close> is serialised as \<open>null\<close>).\<close>

fun jval_of :: "jsnum \<Rightarrow> jval" where
  "jval_of (Num n) = JNum n"
| "jval_of NaN = JNull"

subsection \<open>The handlers\<close>

text \<open>
  A handler either sends a response (status and body) or ends in an exception thrown
  from a file-system callback, in which case no response is sent.
\<close>

datatype body =
    Json_list "todo list"
  | Json_item todo
  | Json_error string
  | Plain string

datatype outcome = Response nat body | Fault error

definition get_todos :: "fs \<Rightarrow> outcome \<times> fs" where
  "get_todos s =
     (case getListFromFile s of
        Inl err \<Rightarrow> (Fault err, s)
      | Inr list \<Rightarrow> (Response 200 (Json_list list), s))"

definition get_todo :: "jsnum \<Rightarrow> fs \<Rightarrow> outcome \<times> fs" where
  "get_todo i s =
     (case getListFromFile s of
        Inl err \<Rightarrow> (Fault err, s)
      | Inr list \<Rightarrow>
          (case find (\<lambda>x. strict_eq (x ''id'') i) list of
             None \<Rightarrow> (Response 404 (Json_error ''item not Found''), s)
           | Some foundItem \<Rightarrow> (Response 200 (Json_item foundItem), s)))"

definition post_todos :: "todo \<Rightarrow> fs \<Rightarrow> outcome \<times> fs" where
  "post_todos newItem s =
     (if \<not> truthy (newItem ''title'') then (Response 404 (Json_error ''title mandatory''), s)
      else
        (case getListFromFile s of
           Inl err \<Rightarrow> (Fault err, s)
         | Inr list \<Rightarrow>
             (let list' = list @ [newItem(''id'' \<mapsto> JNum (generateNewId list))] in
              (case storeListToFile list' s of
                 Inl err \<Rightarrow> (Fault err, s)
               | Inr s' \<Rightarrow> (Response 201 (Json_list list'), s')))))"

definition put_todo :: "jsnum \<Rightarrow> todo \<Rightarrow> fs \<Rightarrow> outcome \<times> fs" where
  "put_todo i newItem s =
     (case getListFromFile s of
        Inl err \<Rightarrow> (Fault err, s)
      | Inr list \<Rightarrow>
          (case findIndex (\<lambda>x. strict_eq (x ''id'') i) list of
             None \<Rightarrow> (Response 404 (Json_error ''item not Found''), s)
           | Some foundIndex \<Rightarrow>
               (let currentItem = list ! foundIndex;
                    updatedItem = (currentItem ++ newItem)(''id'' \<mapsto> jval_of i);
                    list' = list[foundIndex := updatedItem] in
                (case storeListToFile list' s of
                   Inl err \<Rightarrow> (Fault err, s)
                 | Inr s' \<Rightarrow> (Response 200 (Json_list list'), s')))))"

definition delete_todo :: "jsnum \<Rightarrow> fs \<Rightarrow> outcome \<times> fs" where
  "delete_todo i s =
     (case getListFromFile s of
        Inl err \<Rightarrow> (Fault err, s)
      | Inr list \<Rightarrow>
          (case findIndex (\<lambda>x. strict_eq (x ''id'') i) list of
             None \<Rightarrow> (Response 404 (Json_error ''item not Found''), s)
           | Some foundIndex \<Rightarrow>
               (let list' = splice1 foundIndex list in
                (case storeListToFile list' s of
                   Inl err \<Rightarrow> (Fault err, s)
                 | Inr s' \<Rightarrow> (Response 200 (Json_list list'), s')))))"

text \<open>The routes, in the order in which they are registered.\<close>

datatype request =
    GET_todos
  | GET_todo jsnum
  | POST_todos todo
  | PUT_todo jsnum todo
  | DELETE_todo jsnum
  | Other_route

fun handle :: "request \<Rightarrow> fs \<Rightarrow> outcome \<times> fs" where
  "handle GET_todos s = get_todos s"
| "handle (GET_todo i) s = get_todo i s"
| "handle (POST_todos b) s = post_todos b s"
| "handle (PUT_todo i b) s = put_todo i b s"
| "handle (DELETE_todo i) s = delete_todo i s"
| "handle Other_route s = (Response 404 (Plain ''Route not found''), s)"

subsection \<open>Predicates on todo lists and runs of requests\<close>

fun is_num :: "jval option \<Rightarrow> bool" where
  "is_num (Some (JNum n)) = True"
| "is_num _ = False"

text \<open>Every record of the list has an id, and it is a number.\<close>

definition ids_numeric :: "todo list \<Rightarrow> bool" where
  "ids_numeric list = list_all (\<lambda>t. is_num (t ''id'')) list"

text \<open>The data model of the specification: every id is a positive integer.\<close>

definition ids_positive :: "todo list \<Rightarrow> bool" where
  "ids_positive list = list_all (\<lambda>t. is_num (t ''id'') \<and> 0 < num_of (t ''id'')) list"

text \<open>Every id is below \<open>2^53\<close>, where the numbers of JavaScript are exact on integers.\<close>

definition ids_below_limit :: "todo list \<Rightarrow> bool" where
  "ids_below_limit list = list_all (\<lambda>t. num_of (t ''id'') < 2 ^ 53) list"

definition ids_of :: "todo list \<Rightarrow> int list" where
  "ids_of list = map (\<lambda>t. num_of (t ''id'')) list"

text \<open>Every record has a number as its id, and no two records have the same.\<close>

definition unique_ids :: "todo list \<Rightarrow> bool" where
  "unique_ids list = (ids_numeric list \<and> distinct (ids_of list))"

definition store_unique :: "fs \<Rightarrow> bool" where
  "store_unique s = (case content s of Some (Json_text list) \<Rightarrow> unique_ids list | _ \<Rightarrow> False)"

text \<open>A store that, when it holds a list, holds one whose ids are numbers.\<close>

definition store_numeric :: "fs \<Rightarrow> bool" where
  "store_numeric s = (case content s of Some (Json_text list) \<Rightarrow> ids_numeric list | _ \<Rightarrow> True)"

text \<open>
  The id that a request was given: a creation answered with 201 carries the updated
  list, whose last record is the new one.
\<close>

definition created_id :: "request \<Rightarrow> outcome \<Rightarrow> int list" where
  "created_id r out =
     (case (r, out) of
        (POST_todos b, Response st (Json_list l)) \<Rightarrow>
          (if st = 201 \<and> l \<noteq> [] then [num_of (last l ''id'')] else [])
      | _ \<Rightarrow> [])"

text \<open>
  The ids generated by a sequence of requests, each handled on the store the previous one
  left (after a fault the service is restarted on the same store).
\<close>

fun generated :: "fs \<Rightarrow> request list \<Rightarrow> int list" where
  "generated s [] = []"
| "generated s (r # rs) =
     (case handle r s of (out, s') \<Rightarrow> created_id r out @ generated s' rs)"

text \<open>
  The largest id of the loaded list (0 when there is none): the \<open>maxId\<close> of
  \<open>generateNewId\<close> after its \<open>forEach\<close>.
\<close>

definition max_id :: "fs \<Rightarrow> int" where
  "max_id s = (case getListFromFile s of Inl err \<Rightarrow> 0 | Inr list \<Rightarrow> fold max_step list 0)"

text \<open>No deletion of the sequence is aimed at the largest id of the list it meets.\<close>

fun spares_max :: "fs \<Rightarrow> request list \<Rightarrow> bool" where
  "spares_max s [] = True"
| "spares_max s (r # rs) =
     ((case r of DELETE_todo i \<Rightarrow> i \<noteq> Num (max_id s) | _ \<Rightarrow> True)
      \<and> spares_max (snd (handle r s)) rs)"

text \<open>Every creation of the sequence meets a list whose ids are below \<open>2^53\<close>.\<close>

fun below_limit :: "fs \<Rightarrow> request list \<Rightarrow> bool" where
  "below_limit s [] = True"
| "below_limit s (r # rs) =
     ((case r of POST_todos b \<Rightarrow> max_id s < 2 ^ 53 | _ \<Rightarrow> True)
      \<and> below_limit (snd (handle r s)) rs)"

definition store_below_limit :: "fs \<Rightarrow> bool" where
  "store_below_limit s =
     (case content s of Some (Json_text list) \<Rightarrow> ids_below_limit list | _ \<Rightarrow> True)"

subsection \<open>Sample inputs\<close>

definition todoA :: todo where
  "todoA = [''title'' \<mapsto> JStr ''A'']"

definition todoB :: todo where
  "todoB = [''title'' \<mapsto> JStr ''B'', ''id'' \<mapsto> JNum 7]"

definition todo1 :: todo where
  "todo1 = [''title'' \<mapsto> JStr ''A'', ''id'' \<mapsto> JNum 1]"

definition todo2 :: todo where
  "todo2 = [''title'' \<mapsto> JStr ''B'', ''id'' \<mapsto> JNum 2]"

text \<open>A record whose id is \<open>2^53\<close>.\<close>

definition todoBig :: todo where
  "todoBig = [''title'' \<mapsto> JStr ''Z'', ''id'' \<mapsto> JNum 9007199254740992]"

definition store_of :: "todo list \<Rightarrow> fs" where
  "store_of list = \<lparr>content = Some (Json_text list), writable = True\<rparr>"

definition no_store :: fs where
  "no_store = \<lparr>content = None, writable = True\<rparr>"

definition empty_store :: fs where
  "empty_store = \<lparr>content = Some Empty_text, writable = True\<rparr>"

section \<open>Auxiliary facts\<close>

subsection \<open>Lookup and the file\<close>

lemma strict_eq_NaN [simp]: "strict_eq v NaN = False"
  by (cases v) simp_all

lemma strict_eq_Num: "strict_eq v (Num n) = (v = Some (JNum n))"
  by (cases "(v, Num n)" rule: strict_eq.cases) auto

lemma findIndex_None_iff: "findIndex p xs = None \<longleftrightarrow> (\<forall>x\<in>set xs. \<not> p x)"
  by (induction xs) (auto split: option.splits)

lemma findIndex_Some_iff:
  "findIndex p xs = Some k \<longleftrightarrow> k < length xs \<and> p (xs ! k) \<and> (\<forall>j<k. \<not> p (xs ! j))"
proof (induction xs arbitrary: k)
  case Nil
  then show ?case by simp
next
  case (Cons x xs)
  show ?case
  proof (cases "p x")
    case True
    then show ?thesis by (cases k) auto
  next
    case False
    show ?thesis
    proof (cases k)
      case 0
      with False show ?thesis by (auto split: option.splits)
    next
      case (Suc m)
      have "(\<forall>j<Suc m. \<not> p ((x # xs) ! j)) \<longleftrightarrow> (\<forall>j<m. \<not> p (xs ! j))"
        using False by (auto simp: less_Suc_eq_0_disj)
      with False Suc Cons.IH [of m] show ?thesis
        by (auto split: option.splits)
    qed
  qed
qed

lemma find_None_iff_set: "find p xs = None \<longleftrightarrow> (\<forall>x\<in>set xs. \<not> p x)"
  by (induction xs) auto

lemma load_content: "getListFromFile s = Inr list \<longleftrightarrow> content s = Some (Json_text list)"
  by (auto simp: getListFromFile_def readFile_def JSON_parse_def
      split: option.splits file_text.splits)

lemma store_ok:
  "writable s \<Longrightarrow> storeListToFile list s = Inr (s\<lparr>content := Some (Json_text list)\<rparr>)"
  by (simp add: storeListToFile_def writeFile_def JSON_stringify_def)

lemma store_fail: "\<not> writable s \<Longrightarrow> storeListToFile list s = Inl Write_error"
  by (simp add: storeListToFile_def writeFile_def)

lemma get_todo_absent:
  "getListFromFile s = Inr list \<Longrightarrow> \<forall>x\<in>set list. \<not> strict_eq (x ''id'') i \<Longrightarrow>
   get_todo i s = (Response 404 (Json_error ''item not Found''), s)"
  by (simp add: get_todo_def find_None_iff_set [THEN iffD2])

lemma put_todo_absent:
  "getListFromFile s = Inr list \<Longrightarrow> \<forall>x\<in>set list. \<not> strict_eq (x ''id'') i \<Longrightarrow>
   put_todo i b s = (Response 404 (Json_error ''item not Found''), s)"
  by (simp add: put_todo_def findIndex_None_iff [THEN iffD2])

lemma delete_todo_absent:
  "getListFromFile s = Inr list \<Longrightarrow> \<forall>x\<in>set list. \<not> strict_eq (x ''id'') i \<Longrightarrow>
   delete_todo i s = (Response 404 (Json_error ''item not Found''), s)"
  by (simp add: delete_todo_def findIndex_None_iff [THEN iffD2])

lemma put_todo_found:
  "getListFromFile s = Inr list \<Longrightarrow> writable s \<Longrightarrow>
   findIndex (\<lambda>x. strict_eq (x ''id'') i) list = Some k \<Longrightarrow>
   put_todo i b s =
     (Response 200 (Json_list (list[k := (list ! k ++ b)(''id'' \<mapsto> jval_of i)])),
      s\<lparr>content := Some (Json_text (list[k := (list ! k ++ b)(''id'' \<mapsto> jval_of i)]))\<rparr>)"
  by (simp add: put_todo_def store_ok Let_def)

lemma delete_todo_found:
  "getListFromFile s = Inr list \<Longrightarrow> writable s \<Longrightarrow>
   findIndex (\<lambda>x. strict_eq (x ''id'') i) list = Some k \<Longrightarrow>
   delete_todo i s =
     (Response 200 (Json_list (splice1 k list)), s\<lparr>content := Some (Json_text (splice1 k list))\<rparr>)"
  by (simp add: delete_todo_def store_ok Let_def)

lemma post_todos_ok:
  "truthy (b ''title'') \<Longrightarrow> getListFromFile s = Inr list \<Longrightarrow> writable s \<Longrightarrow>
   post_todos b s =
     (Response 201 (Json_list (list @ [b(''id'' \<mapsto> JNum (generateNewId list))])),
      s\<lparr>content := Some (Json_text (list @ [b(''id'' \<mapsto> JNum (generateNewId list))]))\<rparr>)"
  by (simp add: post_todos_def store_ok Let_def)

subsection \<open>The generated id\<close>

lemma fold_max_step:
  "ids_numeric list \<Longrightarrow> fold max_step list m = Max (insert m (set (ids_of list)))"
proof (induction list arbitrary: m)
  case Nil
  then show ?case by (simp add: ids_of_def)
next
  case (Cons t list)
  from Cons.prems obtain n where n: "t ''id'' = Some (JNum n)" and rest: "ids_numeric list"
    by (cases "t ''id''" rule: is_num.cases) (auto simp: ids_numeric_def)
  have step: "max_step t m = max n m"
    by (simp add: max_step_def n max_def)
  have "fold max_step (t # list) m = Max (insert (max n m) (set (ids_of list)))"
    using Cons.IH [OF rest] step by simp
  also have "\<dots> = Max (insert m (set (ids_of (t # list))))"
  proof -
    have "Max (insert n (insert m (set (ids_of list)))) = max n (Max (insert m (set (ids_of list))))"
      by (rule Max_insert) (simp_all add: ids_of_def)
    moreover have "Max (insert (max n m) (set (ids_of list))) = max n (Max (insert m (set (ids_of list))))"
      by (cases "set (ids_of list) = {}") (simp_all add: ids_of_def max.assoc)
    ultimately show ?thesis by (simp add: ids_of_def n insert_commute)
  qed
  finally show ?case .
qed

lemma plus1_exact: "maxId < 2 ^ 53 \<Longrightarrow> plus1 maxId = maxId + 1"
  by (simp add: plus1_def)

lemma Max_below_limit:
  assumes "ids_below_limit list"
  shows "Max (insert 0 (set (ids_of list))) < 2 ^ 53"
proof -
  have "Max (insert 0 (set (ids_of list))) \<in> insert 0 (set (ids_of list))"
    by (rule Max_in) simp_all
  moreover have "\<forall>n\<in>set (ids_of list). n < 2 ^ 53"
    using assms by (simp add: ids_below_limit_def ids_of_def list_all_iff)
  ultimately show ?thesis by auto
qed

lemma generateNewId_Max:
  "ids_numeric list \<Longrightarrow> ids_below_limit list \<Longrightarrow>
   generateNewId list = Max (insert 0 (set (ids_of list))) + 1"
  using Max_below_limit [of list] by (simp add: generateNewId_def fold_max_step plus1_exact)

lemma generateNewId_above:
  assumes "ids_numeric list" and "ids_below_limit list" and "t \<in> set list"
  shows "num_of (t ''id'') < generateNewId list"
proof -
  have "num_of (t ''id'') \<in> insert 0 (set (ids_of list))"
    using assms(3) by (simp add: ids_of_def)
  then have "num_of (t ''id'') \<le> Max (insert 0 (set (ids_of list)))"
    by (intro Max_ge) simp_all
  then show ?thesis
    using assms(1,2) by (simp add: generateNewId_Max)
qed

lemma generateNewId_fresh:
  assumes "ids_numeric list" and "ids_below_limit list" and "t \<in> set list"
  shows "t ''id'' \<noteq> Some (JNum (generateNewId list))"
proof
  assume "t ''id'' = Some (JNum (generateNewId list))"
  then have "num_of (t ''id'') = generateNewId list" by simp
  with generateNewId_above [OF assms] show False by simp
qed

lemma ids_positive_numeric: "ids_positive list \<Longrightarrow> ids_numeric list"
  by (simp add: ids_positive_def ids_numeric_def list_all_iff)

lemma generateNewId_pos:
  assumes "ids_numeric list" and "ids_below_limit list"
  shows "0 < generateNewId list"
proof -
  from assms have "generateNewId list = Max (insert 0 (set (ids_of list))) + 1"
    by (rule generateNewId_Max)
  moreover have "0 \<le> Max (insert 0 (set (ids_of list)))"
    by (intro Max_ge) simp_all
  ultimately show ?thesis by simp
qed

subsection \<open>Replacing, removing and appending records\<close>

lemma findIndex_exists:
  assumes "\<exists>x\<in>set list. p x"
  obtains k where "findIndex p list = Some k"
  using assms findIndex_None_iff [of p list] by (cases "findIndex p list") auto

lemma find_append_fresh:
  "\<forall>x\<in>set xs. \<not> p x \<Longrightarrow> p y \<Longrightarrow> find p (xs @ [y]) = Some y"
  by (induction xs) auto

lemma ids_of_update:
  assumes "k < length list" and "(list ! k) ''id'' = Some (JNum n)"
  shows "ids_of (list[k := (list ! k ++ b)(''id'' \<mapsto> JNum n)]) = ids_of list"
proof -
  have "(ids_of list)[k := n] = ids_of list"
    using assms by (intro list_update_same_conv [THEN iffD2]) (simp_all add: ids_of_def)
  then show ?thesis
    by (simp add: ids_of_def map_update)
qed

lemma ids_numeric_update:
  assumes "ids_numeric list"
  shows "ids_numeric (list[k := (t ++ b)(''id'' \<mapsto> JNum n)])"
proof -
  have "\<forall>x\<in>set (list[k := (t ++ b)(''id'' \<mapsto> JNum n)]). is_num (x ''id'')"
  proof
    fix x assume "x \<in> set (list[k := (t ++ b)(''id'' \<mapsto> JNum n)])"
    then have "x \<in> insert ((t ++ b)(''id'' \<mapsto> JNum n)) (set list)"
      using set_update_subset_insert by fast
    then show "is_num (x ''id'')"
      using assms by (auto simp: ids_numeric_def list_all_iff)
  qed
  then show ?thesis by (simp add: ids_numeric_def list_all_iff)
qed

lemma ids_numeric_splice1: "ids_numeric list \<Longrightarrow> ids_numeric (splice1 k list)"
  by (auto simp: ids_numeric_def splice1_def list_all_iff dest: in_set_takeD in_set_dropD)

lemma ids_numeric_append:
  "ids_numeric list \<Longrightarrow> ids_numeric (list @ [b(''id'' \<mapsto> JNum n)])"
  by (simp add: ids_numeric_def)

lemma distinct_splice1: "distinct (ids_of list) \<Longrightarrow> distinct (ids_of (splice1 k list))"
proof -
  assume d: "distinct (ids_of list)"
  have "ids_of (splice1 k list) = take k (ids_of list) @ drop (Suc k) (ids_of list)"
    by (simp add: ids_of_def splice1_def take_map drop_map)
  moreover have "distinct (take k (ids_of list) @ drop (Suc k) (ids_of list))"
    using d by (auto dest: in_set_takeD in_set_dropD set_take_disj_set_drop_if_distinct
      [of "ids_of list" k "Suc k"])
  ultimately show ?thesis by simp
qed

lemma ids_of_append: "ids_of (list @ [b(''id'' \<mapsto> JNum n)]) = ids_of list @ [n]"
  by (simp add: ids_of_def)

lemma generateNewId_not_in_ids:
  assumes "ids_numeric list" and "ids_below_limit list"
  shows "generateNewId list \<notin> set (ids_of list)"
proof
  assume "generateNewId list \<in> set (ids_of list)"
  then obtain t where "t \<in> set list" and "num_of (t ''id'') = generateNewId list"
    by (auto simp: ids_of_def)
  with generateNewId_above [OF assms, of t] show False by simp
qed

lemma post_todos_unique:
  assumes "store_unique s" and "store_below_limit s"
  shows "store_unique (snd (post_todos b s))"
proof -
  from assms(1) obtain list where c: "content s = Some (Json_text list)" and u: "unique_ids list"
    by (auto simp: store_unique_def split: option.splits file_text.splits)
  from assms(2) c have bl: "ids_below_limit list"
    by (simp add: store_below_limit_def)
  have load: "getListFromFile s = Inr list" using c by (simp add: load_content)
  show ?thesis
  proof (cases "truthy (b ''title'') \<and> writable s")
    case True
    then have "post_todos b s =
      (Response 201 (Json_list (list @ [b(''id'' \<mapsto> JNum (generateNewId list))])),
       s\<lparr>content := Some (Json_text (list @ [b(''id'' \<mapsto> JNum (generateNewId list))]))\<rparr>)"
      using load by (intro post_todos_ok) simp_all
    moreover have "unique_ids (list @ [b(''id'' \<mapsto> JNum (generateNewId list))])"
      using u bl generateNewId_not_in_ids [of list]
      by (simp add: unique_ids_def ids_numeric_append ids_of_append)
    ultimately show ?thesis by (simp add: store_unique_def)
  next
    case False
    then have "snd (post_todos b s) = s"
      using load by (auto simp: post_todos_def store_fail Let_def)
    with assms show ?thesis by simp
  qed
qed

lemma put_todo_unique:
  assumes "store_unique s"
  shows "store_unique (snd (put_todo i b s))"
proof -
  from assms obtain list where c: "content s = Some (Json_text list)" and u: "unique_ids list"
    by (auto simp: store_unique_def split: option.splits file_text.splits)
  have load: "getListFromFile s = Inr list" using c by (simp add: load_content)
  show ?thesis
  proof (cases "findIndex (\<lambda>x. strict_eq (x ''id'') i) list")
    case None
    then show ?thesis using assms load by (simp add: put_todo_def)
  next
    case (Some k)
    show ?thesis
    proof (cases "writable s")
      case False
      then show ?thesis using assms load Some by (simp add: put_todo_def store_fail Let_def)
    next
      case True
      from Some have len: "k < length list" and m: "strict_eq ((list ! k) ''id'') i"
        by (simp_all add: findIndex_Some_iff)
      from m obtain n where i: "i = Num n" and idk: "(list ! k) ''id'' = Some (JNum n)"
        by (cases "((list ! k) ''id'', i)" rule: strict_eq.cases) auto
      let ?l = "list[k := (list ! k ++ b)(''id'' \<mapsto> JNum n)]"
      have "put_todo i b s = (Response 200 (Json_list ?l), s\<lparr>content := Some (Json_text ?l)\<rparr>)"
        using put_todo_found [OF load True Some, of b] i by simp
      moreover have "unique_ids ?l"
        using u ids_of_update [OF len idk, of b] ids_numeric_update [of list k "list ! k" b n]
        by (simp add: unique_ids_def)
      ultimately show ?thesis by (simp add: store_unique_def)
    qed
  qed
qed

lemma delete_todo_unique:
  assumes "store_unique s"
  shows "store_unique (snd (delete_todo i s))"
proof -
  from assms obtain list where c: "content s = Some (Json_text list)" and u: "unique_ids list"
    by (auto simp: store_unique_def split: option.splits file_text.splits)
  have load: "getListFromFile s = Inr list" using c by (simp add: load_content)
  show ?thesis
  proof (cases "findIndex (\<lambda>x. strict_eq (x ''id'') i) list")
    case None
    then show ?thesis using assms load by (simp add: delete_todo_def)
  next
    case (Some k)
    show ?thesis
    proof (cases "writable s")
      case False
      then show ?thesis using assms load Some by (simp add: delete_todo_def store_fail Let_def)
    next
      case True
      have "delete_todo i s =
        (Response 200 (Json_list (splice1 k list)), s\<lparr>content := Some (Json_text (splice1 k list))\<rparr>)"
        by (rule delete_todo_found [OF load True Some])
      moreover have "unique_ids (splice1 k list)"
        using u by (simp add: unique_ids_def ids_numeric_splice1 distinct_splice1)
      ultimately show ?thesis by (simp add: store_unique_def)
    qed
  qed
qed

lemma max_id_load:
  "getListFromFile s = Inr list \<Longrightarrow> ids_numeric list \<Longrightarrow>
   max_id s = Max (insert 0 (set (ids_of list)))"
  by (simp add: max_id_def fold_max_step)

lemma max_id_content:
  "ids_numeric list \<Longrightarrow>
   max_id (s\<lparr>content := Some (Json_text list)\<rparr>) = Max (insert 0 (set (ids_of list)))"
  by (rule max_id_load) (simp_all add: load_content)

lemma store_numeric_content:
  "store_numeric (s\<lparr>content := Some (Json_text list)\<rparr>) = ids_numeric list"
  by (simp add: store_numeric_def)

lemma not_loaded_cases:
  assumes "store_numeric s"
  obtains (fails) err where "getListFromFile s = Inl err"
  | (loads) list where "getListFromFile s = Inr list" and "ids_numeric list"
proof (cases "getListFromFile s")
  case (Inl err)
  then show ?thesis by (rule fails)
next
  case (Inr list)
  then have "content s = Some (Json_text list)" by (simp add: load_content)
  with assms have "ids_numeric list" by (simp add: store_numeric_def)
  with Inr show ?thesis by (rule loads)
qed

lemma created_id_not_post [simp]:
  "created_id GET_todos out = []"
  "created_id (GET_todo i) out = []"
  "created_id (PUT_todo i b) out = []"
  "created_id (DELETE_todo i) out = []"
  "created_id Other_route out = []"
  by (simp_all add: created_id_def)

lemma created_id_no_list [simp]:
  "created_id r (Fault err) = []"
  "created_id r (Response st (Json_error msg)) = []"
  by (simp_all add: created_id_def split: request.splits)

lemma post_step:
  assumes "store_numeric s" and "max_id s < 2 ^ 53"
  shows "store_numeric (snd (post_todos b s))
       \<and> max_id s \<le> max_id (snd (post_todos b s))
       \<and> (\<forall>g\<in>set (created_id (POST_todos b) (fst (post_todos b s))).
             max_id s < g \<and> g \<le> max_id (snd (post_todos b s)))"
  using assms(1)
proof (cases s rule: not_loaded_cases)
  case (fails err)
  then have "post_todos b s = (Response 404 (Json_error ''title mandatory''), s)
           \<or> post_todos b s = (Fault err, s)"
    by (simp add: post_todos_def)
  with assms show ?thesis by auto
next
  case (loads list)
  show ?thesis
  proof (cases "truthy (b ''title'') \<and> writable s")
    case False
    then have "post_todos b s = (Response 404 (Json_error ''title mandatory''), s)
           \<or> post_todos b s = (Fault Write_error, s)"
      using loads(1) by (auto simp: post_todos_def store_fail Let_def)
    with assms show ?thesis by auto
  next
    case True
    let ?g = "generateNewId list"
    let ?l = "list @ [b(''id'' \<mapsto> JNum ?g)]"
    have post: "post_todos b s = (Response 201 (Json_list ?l), s\<lparr>content := Some (Json_text ?l)\<rparr>)"
      using True loads(1) by (intro post_todos_ok) simp_all
    have num: "ids_numeric ?l" using loads(2) by (rule ids_numeric_append)
    have M: "max_id s = Max (insert 0 (set (ids_of list)))" using loads by (rule max_id_load)
    have m: "?g = max_id s + 1"
      using loads(1) assms(2) by (simp add: max_id_def generateNewId_def plus1_exact)
    have "insert 0 (set (ids_of ?l)) = insert ?g (insert 0 (set (ids_of list)))"
      by (auto simp: ids_of_append)
    then have "Max (insert 0 (set (ids_of ?l))) = Max (insert ?g (insert 0 (set (ids_of list))))"
      by (rule arg_cong)
    also have "\<dots> = max ?g (Max (insert 0 (set (ids_of list))))"
      by (rule Max_insert) simp_all
    also have "\<dots> = ?g" using m M by simp
    finally have m': "max_id (s\<lparr>content := Some (Json_text ?l)\<rparr>) = ?g"
      using num by (simp add: max_id_content)
    have cr: "created_id (POST_todos b) (Response 201 (Json_list ?l)) = [?g]"
      by (simp add: created_id_def)
    show ?thesis
      using num m m' cr by (simp add: post store_numeric_content)
  qed
qed

lemma put_step:
  assumes "store_numeric s"
  shows "store_numeric (snd (put_todo i b s)) \<and> max_id s \<le> max_id (snd (put_todo i b s))"
  using assms
proof (cases s rule: not_loaded_cases)
  case (fails err)
  then have "put_todo i b s = (Fault err, s)" by (simp add: put_todo_def)
  with assms show ?thesis by simp
next
  case (loads list)
  show ?thesis
  proof (cases "findIndex (\<lambda>x. strict_eq (x ''id'') i) list")
    case None
    then show ?thesis using assms loads(1) by (simp add: put_todo_def)
  next
    case (Some k)
    show ?thesis
    proof (cases "writable s")
      case False
      then show ?thesis using assms loads(1) Some by (simp add: put_todo_def store_fail Let_def)
    next
      case True
      from Some have len: "k < length list" and m: "strict_eq ((list ! k) ''id'') i"
        by (simp_all add: findIndex_Some_iff)
      from m obtain n where i: "i = Num n" and idk: "(list ! k) ''id'' = Some (JNum n)"
        by (cases "((list ! k) ''id'', i)" rule: strict_eq.cases) auto
      let ?l = "list[k := (list ! k ++ b)(''id'' \<mapsto> JNum n)]"
      have put: "put_todo i b s = (Response 200 (Json_list ?l), s\<lparr>content := Some (Json_text ?l)\<rparr>)"
        using put_todo_found [OF loads(1) True Some, of b] i by simp
      have num: "ids_numeric ?l" using loads(2) by (rule ids_numeric_update)
      have "max_id (s\<lparr>content := Some (Json_text ?l)\<rparr>) = max_id s"
        using num loads ids_of_update [OF len idk, of b]
        by (simp add: max_id_content max_id_load)
      then show ?thesis using num by (simp add: put store_numeric_content)
    qed
  qed
qed

lemma set_splice1:
  assumes "x \<in> set xs" and "k < length xs" and "x \<noteq> xs ! k"
  shows "x \<in> set (splice1 k xs)"
proof -
  have "xs = take k xs @ xs ! k # drop (Suc k) xs"
    using assms(2) by (rule id_take_nth_drop)
  then have "set xs = set (take k xs) \<union> insert (xs ! k) (set (drop (Suc k) xs))"
    by (metis set_append list.simps(15))
  with assms(1,3) show ?thesis by (auto simp: splice1_def)
qed

lemma ids_of_splice1: "ids_of (splice1 k list) = splice1 k (ids_of list)"
  by (simp add: ids_of_def splice1_def take_map drop_map)

lemma delete_step:
  assumes "store_numeric s" and "i \<noteq> Num (max_id s)"
  shows "store_numeric (snd (delete_todo i s)) \<and> max_id s \<le> max_id (snd (delete_todo i s))"
  using assms(1)
proof (cases s rule: not_loaded_cases)
  case (fails err)
  then have "delete_todo i s = (Fault err, s)" by (simp add: delete_todo_def)
  with assms show ?thesis by simp
next
  case (loads list)
  show ?thesis
  proof (cases "findIndex (\<lambda>x. strict_eq (x ''id'') i) list")
    case None
    then show ?thesis using assms loads(1) by (simp add: delete_todo_def)
  next
    case (Some k)
    show ?thesis
    proof (cases "writable s")
      case False
      then show ?thesis using assms loads(1) Some by (simp add: delete_todo_def store_fail Let_def)
    next
      case True
      from Some have len: "k < length list" and m: "strict_eq ((list ! k) ''id'') i"
        by (simp_all add: findIndex_Some_iff)
      from m obtain n where i: "i = Num n" and idk: "(list ! k) ''id'' = Some (JNum n)"
        by (cases "((list ! k) ''id'', i)" rule: strict_eq.cases) auto
      let ?l = "splice1 k list"
      let ?M = "Max (insert 0 (set (ids_of list)))"
      have del: "delete_todo i s = (Response 200 (Json_list ?l), s\<lparr>content := Some (Json_text ?l)\<rparr>)"
        by (rule delete_todo_found [OF loads(1) True Some])
      have num: "ids_numeric ?l" using loads(2) by (rule ids_numeric_splice1)
      have M: "max_id s = ?M" using loads by (rule max_id_load)
      have nk: "ids_of list ! k = n" using len idk by (simp add: ids_of_def)
      have "?M \<in> insert 0 (set (ids_of list))"
        by (rule Max_in) simp_all
      moreover have "?M \<noteq> n" using assms(2) i M by simp
      ultimately have "?M \<in> insert 0 (set (splice1 k (ids_of list)))"
        using set_splice1 [of ?M "ids_of list" k] len nk by (auto simp: ids_of_def)
      then have "?M \<le> Max (insert 0 (set (ids_of ?l)))"
        by (intro Max_ge) (simp_all add: ids_of_splice1)
      then have "max_id s \<le> max_id (s\<lparr>content := Some (Json_text ?l)\<rparr>)"
        using num M by (simp add: max_id_content)
      then show ?thesis using num by (simp add: del store_numeric_content)
    qed
  qed
qed

lemma get_step: "snd (get_todos s) = s" "snd (get_todo i s) = s"
  by (simp_all add: get_todos_def get_todo_def split: sum.splits option.splits)

lemma handle_step:
  assumes "store_numeric s"
    and "case r of DELETE_todo i \<Rightarrow> i \<noteq> Num (max_id s) | _ \<Rightarrow> True"
    and "case r of POST_todos b \<Rightarrow> max_id s < 2 ^ 53 | _ \<Rightarrow> True"
  shows "store_numeric (snd (handle r s))
       \<and> max_id s \<le> max_id (snd (handle r s))
       \<and> (\<forall>g\<in>set (created_id r (fst (handle r s))).
             max_id s < g \<and> g \<le> max_id (snd (handle r s)))"
proof (cases r)
  case GET_todos
  with assms(1) show ?thesis by (simp add: get_step)
next
  case (GET_todo i)
  with assms(1) show ?thesis by (simp add: get_step)
next
  case (POST_todos b)
  with assms(3) post_step [OF assms(1), of b] show ?thesis by simp
next
  case (PUT_todo i b)
  with put_step [OF assms(1), of i b] show ?thesis by simp
next
  case (DELETE_todo i)
  with assms(2) delete_step [OF assms(1), of i] show ?thesis by simp
next
  case Other_route
  with assms(1) show ?thesis by simp
qed

lemma generated_increasing:
  "store_numeric s \<Longrightarrow> spares_max s rs \<Longrightarrow> below_limit s rs \<Longrightarrow>
   sorted_wrt (<) (generated s rs) \<and> (\<forall>g\<in>set (generated s rs). max_id s < g)"
proof (induction rs arbitrary: s)
  case Nil
  then show ?case by simp
next
  case (Cons r rs)
  let ?s' = "snd (handle r s)"
  from Cons.prems(2) have sp: "case r of DELETE_todo i \<Rightarrow> i \<noteq> Num (max_id s) | _ \<Rightarrow> True"
    and rest: "spares_max ?s' rs" by simp_all
  from Cons.prems(3) have bl: "case r of POST_todos b \<Rightarrow> max_id s < 2 ^ 53 | _ \<Rightarrow> True"
    and rest': "below_limit ?s' rs" by simp_all
  from handle_step [OF Cons.prems(1) sp bl]
  have num: "store_numeric ?s'" and le: "max_id s \<le> max_id ?s'"
    and cr: "\<forall>g\<in>set (created_id r (fst (handle r s))). max_id s < g \<and> g \<le> max_id ?s'"
    by simp_all
  from Cons.IH [OF num rest rest']
  have srt: "sorted_wrt (<) (generated ?s' rs)" and above: "\<forall>g\<in>set (generated ?s' rs). max_id ?s' < g"
    by simp_all
  have one: "sorted_wrt (<) (created_id r (fst (handle r s)))"
    by (simp add: created_id_def split: request.splits outcome.splits body.splits)
  have gen: "generated s (r # rs) = created_id r (fst (handle r s)) @ generated ?s' rs"
    by (simp add: split_beta)
  have "sorted_wrt (<) (generated s (r # rs))"
    unfolding gen sorted_wrt_append using srt one cr above by fastforce
  moreover have "\<forall>g\<in>set (generated s (r # rs)). max_id s < g"
    unfolding gen using cr above le by fastforce
  ultimately show ?case by simp
qed

lemma sample_run:
  "generated (store_of [])
     [POST_todos todoA, POST_todos todoB, DELETE_todo (Num 1), POST_todos todoB] = [1, 2, 3]"
  by (simp add: store_of_def todoA_def todoB_def post_todos_def delete_todo_def
      getListFromFile_def readFile_def JSON_parse_def storeListToFile_def writeFile_def
      JSON_stringify_def generateNewId_def plus1_def max_step_def created_id_def splice1_def Let_def)

lemma sample_below:
  "below_limit (store_of [])
     [POST_todos todoA, POST_todos todoB, DELETE_todo (Num 1), POST_todos todoB]"
  by (simp add: store_of_def todoA_def todoB_def post_todos_def delete_todo_def max_id_def
      getListFromFile_def readFile_def JSON_parse_def storeListToFile_def writeFile_def
      JSON_stringify_def generateNewId_def plus1_def max_step_def created_id_def splice1_def Let_def)

lemma sample_spares:
  "spares_max (store_of [])
     [POST_todos todoA, POST_todos todoB, DELETE_todo (Num 1), POST_todos todoB]"
  by (simp add: store_of_def todoA_def todoB_def post_todos_def delete_todo_def max_id_def
      getListFromFile_def readFile_def JSON_parse_def storeListToFile_def writeFile_def
      JSON_stringify_def generateNewId_def plus1_def max_step_def created_id_def splice1_def Let_def)

section \<open>The claims\<close>

text \<open>
  C1. For a todo list of the data model (every id a positive integer) whose ids are below
  \<open>2^53\<close>, the id that \<open>generateNewId\<close> assigns is the maximum of the existing ids plus 1,
  and 1 when the list is empty; it is strictly positive and no record of the list has it.
\<close>

theorem generateNewId_contract:
  assumes "ids_positive list" and "ids_below_limit list"
  shows "generateNewId list = (if list = [] then 1 else Max (set (ids_of list)) + 1)
       \<and> 0 < generateNewId list
       \<and> (\<forall>t\<in>set list. t ''id'' \<noteq> Some (JNum (generateNewId list)))"
proof -
  have num: "ids_numeric list" using assms(1) by (rule ids_positive_numeric)
  have val: "generateNewId list = (if list = [] then 1 else Max (set (ids_of list)) + 1)"
  proof (cases "list = []")
    case True
    then show ?thesis by (simp add: generateNewId_def plus1_def)
  next
    case False
    then have ne: "set (ids_of list) \<noteq> {}" by (simp add: ids_of_def)
    have "\<forall>n\<in>set (ids_of list). 0 < n"
      using assms(1) by (auto simp: ids_positive_def ids_of_def list_all_iff)
    moreover have "Max (set (ids_of list)) \<in> set (ids_of list)"
      using ne by (intro Max_in) simp_all
    ultimately have "0 < Max (set (ids_of list))"
      by blast
    moreover have "Max (insert 0 (set (ids_of list))) = max 0 (Max (set (ids_of list)))"
      using ne by (intro Max_insert) simp_all
    ultimately show ?thesis
      using False num assms(2) by (simp add: generateNewId_Max)
  qed
  have fresh: "\<forall>t\<in>set list. t ''id'' \<noteq> Some (JNum (generateNewId list))"
    using generateNewId_fresh [OF num assms(2)] by blast
  from val generateNewId_pos [OF num assms(2)] fresh show ?thesis
    by blast
qed

theorem generateNewId_contract_witness:
  "ids_positive [todo1, todo2] \<and> ids_below_limit [todo1, todo2]
   \<and> generateNewId [todo1, todo2] = 3 \<and> generateNewId [] = 1"
  using generateNewId_contract [of "[todo1, todo2]"] generateNewId_contract [of "[]"]
  by (simp add: ids_positive_def ids_below_limit_def ids_of_def todo1_def todo2_def)

text \<open>
  C1 as stated fails on a list that holds the id \<open>2^53\<close>: the sum \<open>maxId + 1\<close> is rounded
  back to \<open>2^53\<close>, which is not the maximum plus 1 and is the id of a record of the list.
\<close>

theorem generateNewId_rounding_counterexample:
  "ids_positive [todoBig]
   \<and> generateNewId [todoBig] = 9007199254740992
   \<and> todoBig ''id'' = Some (JNum (generateNewId [todoBig]))
   \<and> generateNewId [todoBig] \<noteq> Max (set (ids_of [todoBig])) + 1"
  by (simp add: ids_positive_def ids_of_def todoBig_def generateNewId_def max_step_def plus1_def)

text \<open>
  C2. \<open>POST /todos\<close>: when the title of the body is missing or falsy the answer is 404
  with \<open>{error: "title mandatory"}\<close> and the store is as before; otherwise, on a store
  that loads (with number ids) and can be written, the record \<open>{...body, id: generated}\<close>
  is appended to the loaded list, the list is what the store holds afterwards, and the
  answer is 201 with the entire updated list.
\<close>

theorem post_todos_contract:
  "(\<not> truthy (b ''title'') \<longrightarrow>
      post_todos b s = (Response 404 (Json_error ''title mandatory''), s))
   \<and> (truthy (b ''title'') \<and> getListFromFile s = Inr list \<and> ids_numeric list \<and> writable s \<longrightarrow>
      post_todos b s =
        (Response 201 (Json_list (list @ [b(''id'' \<mapsto> JNum (generateNewId list))])),
         s\<lparr>content := Some (Json_text (list @ [b(''id'' \<mapsto> JNum (generateNewId list))]))\<rparr>)
      \<and> getListFromFile (snd (post_todos b s)) =
          Inr (list @ [b(''id'' \<mapsto> JNum (generateNewId list))]))"
proof (intro conjI impI)
  assume "\<not> truthy (b ''title'')"
  then show "post_todos b s = (Response 404 (Json_error ''title mandatory''), s)"
    by (simp add: post_todos_def)
next
  assume h: "truthy (b ''title'') \<and> getListFromFile s = Inr list \<and> ids_numeric list \<and> writable s"
  then show "post_todos b s =
        (Response 201 (Json_list (list @ [b(''id'' \<mapsto> JNum (generateNewId list))])),
         s\<lparr>content := Some (Json_text (list @ [b(''id'' \<mapsto> JNum (generateNewId list))]))\<rparr>)"
    by (simp add: post_todos_ok)
  then show "getListFromFile (snd (post_todos b s)) =
          Inr (list @ [b(''id'' \<mapsto> JNum (generateNewId list))])"
    by (simp add: load_content)
qed

theorem post_todos_contract_witness:
  "\<not> truthy (Map.empty ''title'')
   \<and> post_todos Map.empty (store_of [todo1]) = (Response 404 (Json_error ''title mandatory''), store_of [todo1])
   \<and> truthy (todoA ''title'') \<and> getListFromFile (store_of [todo1]) = Inr [todo1]
   \<and> ids_numeric [todo1] \<and> writable (store_of [todo1])
   \<and> getListFromFile (snd (post_todos todoA (store_of [todo1]))) =
        Inr ([todo1] @ [todoA(''id'' \<mapsto> JNum (generateNewId [todo1]))])
   \<and> generateNewId [todo1] = 2"
proof -
  have h1: "\<not> truthy (Map.empty ''title'')" by simp
  have h2: "truthy (todoA ''title'') \<and> getListFromFile (store_of [todo1]) = Inr [todo1]
     \<and> ids_numeric [todo1] \<and> writable (store_of [todo1])"
    by (simp add: todoA_def todo1_def store_of_def load_content ids_numeric_def)
  have g: "generateNewId [todo1] = 2"
    by (simp add: generateNewId_def plus1_def max_step_def todo1_def)
  from post_todos_contract [of Map.empty "store_of [todo1]" "[todo1]"] h1
    post_todos_contract [of todoA "store_of [todo1]" "[todo1]"] h2 g
  show ?thesis by blast
qed

text \<open>
  C3. \<open>PUT /todos/:id\<close> on a store that loads and can be written, when a record of the
  list has the path id: the first such record is replaced by the shallow merge of the body
  over it with \<open>id\<close> set to the path id, so its id is the one it had whatever the body
  says; the list is what the store holds afterwards and the answer is 200 with the whole
  updated list.
\<close>

theorem put_todo_merges:
  assumes "getListFromFile s = Inr list" and "writable s"
    and "\<exists>x\<in>set list. x ''id'' = Some (JNum n)"
  shows "\<exists>k<length list. (list ! k) ''id'' = Some (JNum n) \<and>
     (\<forall>j<k. (list ! j) ''id'' \<noteq> Some (JNum n)) \<and>
     (let updatedItem = (list ! k ++ b)(''id'' \<mapsto> JNum n);
          list' = list[k := updatedItem]
      in put_todo (Num n) b s =
           (Response 200 (Json_list list'), s\<lparr>content := Some (Json_text list')\<rparr>)
         \<and> getListFromFile (snd (put_todo (Num n) b s)) = Inr list'
         \<and> list' ! k = updatedItem
         \<and> updatedItem ''id'' = (list ! k) ''id''
         \<and> (\<forall>key. key \<noteq> ''id'' \<longrightarrow>
               updatedItem key = (case b key of Some v \<Rightarrow> Some v | None \<Rightarrow> (list ! k) key)))"
proof -
  from assms(3) have "\<exists>x\<in>set list. strict_eq (x ''id'') (Num n)"
    by (simp add: strict_eq_Num)
  then obtain k where k: "findIndex (\<lambda>x. strict_eq (x ''id'') (Num n)) list = Some k"
    by (rule findIndex_exists)
  then have len: "k < length list" and idk: "(list ! k) ''id'' = Some (JNum n)"
    and first: "\<forall>j<k. (list ! j) ''id'' \<noteq> Some (JNum n)"
    by (simp_all add: findIndex_Some_iff strict_eq_Num)
  have put: "put_todo (Num n) b s =
      (Response 200 (Json_list (list[k := (list ! k ++ b)(''id'' \<mapsto> JNum n)])),
       s\<lparr>content := Some (Json_text (list[k := (list ! k ++ b)(''id'' \<mapsto> JNum n)]))\<rparr>)"
    using put_todo_found [OF assms(1,2) k, of b] by simp
  have merge: "\<forall>key. key \<noteq> ''id'' \<longrightarrow>
      ((list ! k ++ b)(''id'' \<mapsto> JNum n)) key = (case b key of Some v \<Rightarrow> Some v | None \<Rightarrow> (list ! k) key)"
    by (simp add: map_add_def)
  have "(let updatedItem = (list ! k ++ b)(''id'' \<mapsto> JNum n);
          list' = list[k := updatedItem]
      in put_todo (Num n) b s =
           (Response 200 (Json_list list'), s\<lparr>content := Some (Json_text list')\<rparr>)
         \<and> getListFromFile (snd (put_todo (Num n) b s)) = Inr list'
         \<and> list' ! k = updatedItem
         \<and> updatedItem ''id'' = (list ! k) ''id''
         \<and> (\<forall>key. key \<noteq> ''id'' \<longrightarrow>
               updatedItem key = (case b key of Some v \<Rightarrow> Some v | None \<Rightarrow> (list ! k) key)))"
    unfolding Let_def using put len idk merge by (simp add: load_content)
  with len idk first show ?thesis by blast
qed

theorem put_todo_merges_witness:
  "getListFromFile (store_of [todo1, todo2]) = Inr [todo1, todo2]
   \<and> writable (store_of [todo1, todo2])
   \<and> (\<exists>x\<in>set [todo1, todo2]. x ''id'' = Some (JNum 2))
   \<and> (\<exists>k<length [todo1, todo2]. ([todo1, todo2] ! k) ''id'' = Some (JNum 2) \<and>
        getListFromFile (snd (put_todo (Num 2) todoB (store_of [todo1, todo2]))) =
          Inr ([todo1, todo2][k := ([todo1, todo2] ! k ++ todoB)(''id'' \<mapsto> JNum 2)]))"
proof -
  have h1: "getListFromFile (store_of [todo1, todo2]) = Inr [todo1, todo2]"
    by (simp add: load_content store_of_def)
  have h2: "writable (store_of [todo1, todo2])"
    by (simp add: store_of_def)
  have h3: "\<exists>x\<in>set [todo1, todo2]. x ''id'' = Some (JNum 2)"
    by (simp add: todo2_def)
  from put_todo_merges [OF h1 h2 h3, of todoB] h1 h2 h3 show ?thesis
    unfolding Let_def by blast
qed

text \<open>
  C4. The claim that the loader returns an empty list for a store file that does not exist
  or is empty fails: the read error is rethrown, and \<open>JSON.parse\<close> throws on the empty
  text. What holds: the loader fails with the read error when the file cannot be read,
  fails with the parse error when the content is empty or otherwise malformed, and
  returns the stored list when the file holds one.
\<close>

theorem getListFromFile_cases:
  "getListFromFile s =
     (case content s of
        None \<Rightarrow> Inl Read_error
      | Some Empty_text \<Rightarrow> Inl Syntax_error
      | Some Malformed_text \<Rightarrow> Inl Syntax_error
      | Some (Json_text list) \<Rightarrow> Inr list)"
  by (simp add: getListFromFile_def readFile_def JSON_parse_def
      split: option.splits file_text.splits)

theorem getListFromFile_cases_witness:
  "getListFromFile (store_of [todo1]) = Inr [todo1]
   \<and> getListFromFile \<lparr>content = Some Malformed_text, writable = True\<rparr> = Inl Syntax_error"
  using getListFromFile_cases [of "store_of [todo1]"]
    getListFromFile_cases [of "\<lparr>content = Some Malformed_text, writable = True\<rparr>"]
  by (simp add: store_of_def)

text \<open>
  C4 as stated fails on a store without a file and on a store with an empty file: the
  loader does not return the empty list there.
\<close>

theorem getListFromFile_missing_counterexample:
  "getListFromFile no_store = Inl Read_error \<and> getListFromFile no_store \<noteq> Inr []
   \<and> getListFromFile empty_store = Inl Syntax_error \<and> getListFromFile empty_store \<noteq> Inr []"
  by (simp add: getListFromFile_def readFile_def JSON_parse_def no_store_def empty_store_def)

text \<open>
  C5. The ids generated along a sequence of requests are pairwise distinct (they are
  strictly increasing) when the store, if it holds a list, holds one whose ids are
  numbers, no deletion of the sequence is aimed at the largest id of the list it meets,
  and every creation meets a list whose ids are below \<open>2^53\<close>.
\<close>

theorem generated_distinct:
  assumes "store_numeric s" and "spares_max s rs" and "below_limit s rs"
  shows "distinct (generated s rs) \<and> sorted_wrt (<) (generated s rs)"
proof -
  from generated_increasing [OF assms] have "sorted_wrt (<) (generated s rs)" by simp
  then show ?thesis by (simp add: strict_sorted_iff)
qed

theorem generated_distinct_witness:
  "store_numeric (store_of [])
   \<and> spares_max (store_of [])
        [POST_todos todoA, POST_todos todoB, DELETE_todo (Num 1), POST_todos todoB]
   \<and> below_limit (store_of [])
        [POST_todos todoA, POST_todos todoB, DELETE_todo (Num 1), POST_todos todoB]
   \<and> distinct (generated (store_of [])
        [POST_todos todoA, POST_todos todoB, DELETE_todo (Num 1), POST_todos todoB])
   \<and> generated (store_of [])
        [POST_todos todoA, POST_todos todoB, DELETE_todo (Num 1), POST_todos todoB] = [1, 2, 3]"
proof -
  have h1: "store_numeric (store_of [])"
    by (simp add: store_numeric_def store_of_def ids_numeric_def)
  from generated_distinct [OF h1 sample_spares sample_below] h1 sample_spares sample_below
    sample_run
  show ?thesis by simp
qed

text \<open>
  C5 as stated fails in two ways. The id is recomputed from the list at every creation:
  on an empty store, a creation, the deletion of the record it created and another
  creation generate the id 1 twice. And on a store that holds the id \<open>2^53\<close> the sum
  \<open>maxId + 1\<close> is rounded back to \<open>2^53\<close>: two creations generate \<open>2^53\<close> twice.
\<close>

theorem generated_repeat_counterexample:
  "generated (store_of []) [POST_todos todoA, DELETE_todo (Num 1), POST_todos todoB] = [1, 1]
   \<and> \<not> distinct (generated (store_of []) [POST_todos todoA, DELETE_todo (Num 1), POST_todos todoB])
   \<and> generated (store_of [todoBig]) [POST_todos todoA, POST_todos todoB] =
       [9007199254740992, 9007199254740992]
   \<and> \<not> distinct (generated (store_of [todoBig]) [POST_todos todoA, POST_todos todoB])"
  by (simp add: store_of_def todoA_def todoB_def todoBig_def post_todos_def delete_todo_def
      getListFromFile_def readFile_def JSON_parse_def storeListToFile_def writeFile_def
      JSON_stringify_def generateNewId_def plus1_def max_step_def created_id_def splice1_def Let_def)

text \<open>
  C6. Uniqueness invariant: when the store holds a list in which every record has a number
  as its id and no two records have the same id, then so does the store after an update
  or a delete, whatever its outcome, and after a create when the ids of the list are below
  \<open>2^53\<close>.
\<close>

theorem uniqueness_preserved:
  assumes "store_unique s"
  shows "(store_below_limit s \<longrightarrow> store_unique (snd (post_todos b s)))
       \<and> store_unique (snd (put_todo i b s))
       \<and> store_unique (snd (delete_todo i s))"
  using assms by (simp add: post_todos_unique put_todo_unique delete_todo_unique)

theorem uniqueness_preserved_witness:
  "store_unique (store_of [todo1, todo2])
   \<and> store_below_limit (store_of [todo1, todo2])
   \<and> store_unique (snd (post_todos todoB (store_of [todo1, todo2])))
   \<and> store_unique (snd (put_todo (Num 2) todoB (store_of [todo1, todo2])))
   \<and> store_unique (snd (delete_todo (Num 1) (store_of [todo1, todo2])))"
proof -
  have h: "store_unique (store_of [todo1, todo2])"
    by (simp add: store_unique_def store_of_def unique_ids_def ids_numeric_def ids_of_def
        todo1_def todo2_def)
  have b: "store_below_limit (store_of [todo1, todo2])"
    by (simp add: store_below_limit_def store_of_def ids_below_limit_def todo1_def todo2_def)
  from uniqueness_preserved [OF h, of todoB "Num 2"] uniqueness_preserved [OF h, of todoB "Num 1"] h b
  show ?thesis by blast
qed

text \<open>
  C6 as stated fails for a create on a store that holds the id \<open>2^53\<close>: the generated id
  is \<open>2^53\<close> again, and the list that is persisted has two records with that id.
\<close>

theorem uniqueness_rounding_counterexample:
  "store_unique (store_of [todoBig])
   \<and> truthy (todoA ''title'')
   \<and> getListFromFile (snd (post_todos todoA (store_of [todoBig]))) =
       Inr [todoBig, todoA(''id'' \<mapsto> JNum 9007199254740992)]
   \<and> \<not> store_unique (snd (post_todos todoA (store_of [todoBig])))"
  by (simp add: store_unique_def unique_ids_def ids_numeric_def ids_of_def store_of_def
      todoA_def todoBig_def post_todos_def getListFromFile_def readFile_def JSON_parse_def
      storeListToFile_def writeFile_def JSON_stringify_def generateNewId_def plus1_def
      max_step_def Let_def)

text \<open>
  C7. On a store that loads, a \<open>GET\<close>, \<open>PUT\<close> or \<open>DELETE\<close> on \<open>/todos/:id\<close> whose id,
  coerced to a number, is strictly equal to no record's id (which is the case of every
  non-numeric id, coerced to \<open>NaN\<close>) answers 404 with \<open>{error: "item not Found"}\<close> and
  leaves the store as it was.
\<close>

theorem absent_id_404:
  assumes "getListFromFile s = Inr list"
    and "i = NaN \<or> (\<forall>x\<in>set list. \<not> strict_eq (x ''id'') i)"
  shows "get_todo i s = (Response 404 (Json_error ''item not Found''), s)
       \<and> put_todo i b s = (Response 404 (Json_error ''item not Found''), s)
       \<and> delete_todo i s = (Response 404 (Json_error ''item not Found''), s)"
proof -
  from assms(2) have none: "\<forall>x\<in>set list. \<not> strict_eq (x ''id'') i"
    by auto
  from get_todo_absent [OF assms(1) none] put_todo_absent [OF assms(1) none]
    delete_todo_absent [OF assms(1) none]
  show ?thesis by simp
qed

theorem absent_id_404_witness:
  "getListFromFile (store_of [todo1, todo2]) = Inr [todo1, todo2]
   \<and> delete_todo (Num 5) (store_of [todo1, todo2]) =
       (Response 404 (Json_error ''item not Found''), store_of [todo1, todo2])
   \<and> get_todo NaN (store_of [todo1, todo2]) =
       (Response 404 (Json_error ''item not Found''), store_of [todo1, todo2])"
proof -
  have h1: "getListFromFile (store_of [todo1, todo2]) = Inr [todo1, todo2]"
    by (simp add: load_content store_of_def)
  have h2: "\<forall>x\<in>set [todo1, todo2]. \<not> strict_eq (x ''id'') (Num 5)"
    by (simp add: todo1_def todo2_def)
  have h3: "Num 5 = NaN \<or> (\<forall>x\<in>set [todo1, todo2]. \<not> strict_eq (x ''id'') (Num 5))"
    using h2 by simp
  have h4: "NaN = NaN \<or> (\<forall>x\<in>set [todo1, todo2]. \<not> strict_eq (x ''id'') NaN)"
    by simp
  from absent_id_404 [OF h1 h3, of todoA] absent_id_404 [OF h1 h4, of todoA] h1
  show ?thesis by simp
qed

text \<open>
  C8. Round trip: after a creation with a truthy title (on a store that loads, with number
  ids below \<open>2^53\<close>, and can be written), fetching the id that was assigned answers 200
  with the record whose fields are those of the submitted body together with the assigned
  id.
\<close>

theorem create_then_fetch:
  assumes "truthy (b ''title'')" and "getListFromFile s = Inr list"
    and "ids_numeric list" and "ids_below_limit list" and "writable s"
  shows "created_id (POST_todos b) (fst (post_todos b s)) = [generateNewId list]
       \<and> get_todo (Num (generateNewId list)) (snd (post_todos b s)) =
           (Response 200 (Json_item (b(''id'' \<mapsto> JNum (generateNewId list)))),
            snd (post_todos b s))"
proof -
  let ?g = "generateNewId list"
  let ?new = "b(''id'' \<mapsto> JNum ?g)"
  have post: "post_todos b s =
      (Response 201 (Json_list (list @ [?new])), s\<lparr>content := Some (Json_text (list @ [?new]))\<rparr>)"
    using assms(1,2,5) by (rule post_todos_ok [of b s list])
  have cr: "created_id (POST_todos b) (fst (post_todos b s)) = [?g]"
    by (simp add: post created_id_def)
  have load: "getListFromFile (snd (post_todos b s)) = Inr (list @ [?new])"
    by (simp add: post load_content)
  have "\<forall>x\<in>set list. \<not> strict_eq (x ''id'') (Num ?g)"
    using generateNewId_fresh [OF assms(3,4)] by (simp add: strict_eq_Num)
  then have "find (\<lambda>x. strict_eq (x ''id'') (Num ?g)) (list @ [?new]) = Some ?new"
    by (rule find_append_fresh) simp
  then have "get_todo (Num ?g) (snd (post_todos b s)) =
      (Response 200 (Json_item ?new), snd (post_todos b s))"
    by (simp add: get_todo_def load)
  with cr show ?thesis by simp
qed

theorem create_then_fetch_witness:
  "truthy (todoB ''title'') \<and> getListFromFile (store_of [todo1, todo2]) = Inr [todo1, todo2]
   \<and> ids_numeric [todo1, todo2] \<and> ids_below_limit [todo1, todo2]
   \<and> writable (store_of [todo1, todo2])
   \<and> generateNewId [todo1, todo2] = 3
   \<and> fst (get_todo (Num 3) (snd (post_todos todoB (store_of [todo1, todo2])))) =
       Response 200 (Json_item (todoB(''id'' \<mapsto> JNum 3)))"
proof -
  have h1: "truthy (todoB ''title'')" by (simp add: todoB_def)
  have h2: "getListFromFile (store_of [todo1, todo2]) = Inr [todo1, todo2]"
    by (simp add: load_content store_of_def)
  have h3: "ids_numeric [todo1, todo2]"
    by (simp add: ids_numeric_def todo1_def todo2_def)
  have h4: "ids_below_limit [todo1, todo2]"
    by (simp add: ids_below_limit_def todo1_def todo2_def)
  have h5: "writable (store_of [todo1, todo2])" by (simp add: store_of_def)
  have g: "generateNewId [todo1, todo2] = 3"
    by (simp add: generateNewId_def plus1_def max_step_def todo1_def todo2_def)
  from create_then_fetch [of todoB "store_of [todo1, todo2]" "[todo1, todo2]", OF h1 h2 h3 h4 h5]
    h1 h2 h3 h4 h5 g
  show ?thesis by simp
qed

text \<open>
  C8 as stated fails on a store that holds the id \<open>2^53\<close>: the creation is given the id
  \<open>2^53\<close> again, and fetching that id answers with the record that was there before, not
  with the one just created.
\<close>

theorem create_then_fetch_rounding_counterexample:
  "truthy (todoA ''title'')
   \<and> created_id (POST_todos todoA) (fst (post_todos todoA (store_of [todoBig]))) =
       [9007199254740992]
   \<and> fst (get_todo (Num 9007199254740992) (snd (post_todos todoA (store_of [todoBig])))) =
       Response 200 (Json_item todoBig)
   \<and> todoBig ''title'' \<noteq> (todoA(''id'' \<mapsto> JNum 9007199254740992)) ''title''"
  by (simp add: store_of_def todoA_def todoBig_def post_todos_def get_todo_def
      getListFromFile_def readFile_def JSON_parse_def storeListToFile_def writeFile_def
      JSON_stringify_def generateNewId_def plus1_def max_step_def created_id_def Let_def)

text \<open>
  C9. A successful \<open>PUT /todos/:id\<close> replaces the record at the position of the first
  match only: the list keeps its length, every other position holds the record it held,
  and the record at the matched position still has the path id. A successful
  \<open>DELETE /todos/:id\<close> removes exactly the record at that position: what remains is the
  records before it followed by the records after it, in their order.
\<close>

theorem put_delete_frame:
  assumes "getListFromFile s = Inr list" and "writable s"
    and "\<exists>x\<in>set list. x ''id'' = Some (JNum n)"
  shows "\<exists>k<length list. (list ! k) ''id'' = Some (JNum n) \<and>
     (\<forall>j<k. (list ! j) ''id'' \<noteq> Some (JNum n)) \<and>
     (\<exists>list'. fst (put_todo (Num n) b s) = Response 200 (Json_list list')
        \<and> getListFromFile (snd (put_todo (Num n) b s)) = Inr list'
        \<and> length list' = length list
        \<and> (\<forall>j<length list. j \<noteq> k \<longrightarrow> list' ! j = list ! j)
        \<and> (list' ! k) ''id'' = Some (JNum n))
     \<and> fst (delete_todo (Num n) s) = Response 200 (Json_list (take k list @ drop (Suc k) list))
     \<and> getListFromFile (snd (delete_todo (Num n) s)) = Inr (take k list @ drop (Suc k) list)"
proof -
  from assms(3) have "\<exists>x\<in>set list. strict_eq (x ''id'') (Num n)"
    by (simp add: strict_eq_Num)
  then obtain k where k: "findIndex (\<lambda>x. strict_eq (x ''id'') (Num n)) list = Some k"
    by (rule findIndex_exists)
  then have len: "k < length list" and idk: "(list ! k) ''id'' = Some (JNum n)"
    and first: "\<forall>j<k. (list ! j) ''id'' \<noteq> Some (JNum n)"
    by (simp_all add: findIndex_Some_iff strict_eq_Num)
  let ?l = "list[k := (list ! k ++ b)(''id'' \<mapsto> JNum n)]"
  have put: "put_todo (Num n) b s = (Response 200 (Json_list ?l), s\<lparr>content := Some (Json_text ?l)\<rparr>)"
    using put_todo_found [OF assms(1,2) k, of b] by simp
  have p: "fst (put_todo (Num n) b s) = Response 200 (Json_list ?l)
        \<and> getListFromFile (snd (put_todo (Num n) b s)) = Inr ?l
        \<and> length ?l = length list
        \<and> (\<forall>j<length list. j \<noteq> k \<longrightarrow> ?l ! j = list ! j)
        \<and> (?l ! k) ''id'' = Some (JNum n)"
    using put len by (simp add: load_content)
  have del: "delete_todo (Num n) s =
      (Response 200 (Json_list (splice1 k list)), s\<lparr>content := Some (Json_text (splice1 k list))\<rparr>)"
    by (rule delete_todo_found [OF assms(1,2) k])
  have d: "fst (delete_todo (Num n) s) = Response 200 (Json_list (take k list @ drop (Suc k) list))
     \<and> getListFromFile (snd (delete_todo (Num n) s)) = Inr (take k list @ drop (Suc k) list)"
    using del by (simp add: load_content splice1_def)
  from len idk first p d show ?thesis by blast
qed

theorem put_delete_frame_witness:
  "getListFromFile (store_of [todo1, todo2]) = Inr [todo1, todo2]
   \<and> writable (store_of [todo1, todo2])
   \<and> (\<exists>x\<in>set [todo1, todo2]. x ''id'' = Some (JNum 1))
   \<and> (\<exists>k<length [todo1, todo2]. ([todo1, todo2] ! k) ''id'' = Some (JNum 1) \<and>
        getListFromFile (snd (delete_todo (Num 1) (store_of [todo1, todo2]))) =
          Inr (take k [todo1, todo2] @ drop (Suc k) [todo1, todo2]))"
proof -
  have h1: "getListFromFile (store_of [todo1, todo2]) = Inr [todo1, todo2]"
    by (simp add: load_content store_of_def)
  have h2: "writable (store_of [todo1, todo2])"
    by (simp add: store_of_def)
  have h3: "\<exists>x\<in>set [todo1, todo2]. x ''id'' = Some (JNum 1)"
    by (simp add: todo1_def)
  from put_delete_frame [OF h1 h2 h3, of todoB] h1 h2 h3 show ?thesis
    by blast
qed

text \<open>
  C10. \<open>GET /todos\<close> and \<open>GET /todos/:id\<close> never write the store: after the request the
  store is the one before it, whatever the outcome.
\<close>

theorem reads_leave_store:
  "snd (get_todos s) = s \<and> snd (get_todo i s) = s"
  by (simp add: get_todos_def get_todo_def split: sum.splits option.splits)

end
